theory Spec2Isabelle
  imports Main "HOL-Library.Word"
begin

section \<open>The console logger of cmd/logger.go\<close>

text \<open>
  A shallow embedding of \<^verbatim>\<open>cmd/logger.go\<close>: the logger's mode flags, the
  path trimming of stack frames, the trace builder, and \<^verbatim>\<open>logIf\<close> with its two
  renderings. Everything the Go code takes from outside the file (the call stack, the
  clock, the colour functions, the package variable \<^verbatim>\<open>trimStrings\<close>, the path
  separator of the operating system) is a field of the record \<open>env\<close>.
\<close>

subsection \<open>Strings: the functions of package strings that the file uses\<close>

definition HasPrefix :: "string \<Rightarrow> string \<Rightarrow> bool" where
  "HasPrefix s pre = (take (length pre) s = pre)"

definition TrimPrefix :: "string \<Rightarrow> string \<Rightarrow> string" where
  "TrimPrefix s pre = (if HasPrefix s pre then drop (length pre) s else s)"

fun Join :: "string list \<Rightarrow> string \<Rightarrow> string" where
  "Join [] sep = []"
| "Join [a] sep = a"
| "Join (a # b # rest) sep = a @ sep @ Join (b # rest) sep"

text \<open>
  \<^verbatim>\<open>strings.Title\<close>: every letter that follows a separator (and the first one) is
  mapped to title case. The model is exact on ASCII text; bytes from 128 on (parts of a
  multi-byte rune) are neither separators nor changed.
\<close>

definition isLower :: "char \<Rightarrow> bool" where
  "isLower c = (97 \<le> (of_char c :: nat) \<and> (of_char c :: nat) \<le> 122)"

definition isUpper :: "char \<Rightarrow> bool" where
  "isUpper c = (65 \<le> (of_char c :: nat) \<and> (of_char c :: nat) \<le> 90)"

definition isDigit :: "char \<Rightarrow> bool" where
  "isDigit c = (48 \<le> (of_char c :: nat) \<and> (of_char c :: nat) \<le> 57)"

definition isSeparator :: "char \<Rightarrow> bool" where
  "isSeparator r =
     (if (of_char r :: nat) \<le> 127
      then \<not> (isDigit r \<or> isLower r \<or> isUpper r \<or> r = CHR ''_'')
      else False)"

definition ToTitle :: "char \<Rightarrow> char" where
  "ToTitle r = (if isLower r then char_of ((of_char r :: nat) - 32) else r)"

fun Title_from :: "char \<Rightarrow> string \<Rightarrow> string" where
  "Title_from prev [] = []"
| "Title_from prev (r # s) = (if isSeparator prev then ToTitle r else r) # Title_from r s"

definition Title :: "string \<Rightarrow> string" where
  "Title s = Title_from (CHR '' '') s"

subsection \<open>Formatting: the fragment of package fmt that the file uses\<close>

text \<open>
  Operands are strings and integers. \<open>Sprintf\<close> covers the verbs \<^verbatim>\<open>%s\<close>,
  \<^verbatim>\<open>%d\<close>, \<^verbatim>\<open>%v\<close> with an optional decimal width, and \<^verbatim>\<open>%%\<close>; a
  missing operand, a missing verb and unused operands are reported as package fmt does.
  Flags, precisions and the other verbs are outside the model: such a verb is rendered
  as fmt renders a verb that does not fit its operand.
\<close>

datatype arg = ArgStr string | ArgInt int

fun natToDec :: "nat \<Rightarrow> string" where
  "natToDec n =
     (if n < 10 then [''0123456789'' ! n]
      else natToDec (n div 10) @ [''0123456789'' ! (n mod 10)])"

declare natToDec.simps [simp del]

definition itoa :: "int \<Rightarrow> string" where
  "itoa i = (if i < 0 then CHR ''-'' # natToDec (nat (- i)) else natToDec (nat i))"

fun decToNat :: "nat \<Rightarrow> string \<Rightarrow> nat" where
  "decToNat acc [] = acc"
| "decToNat acc (c # cs) = decToNat (10 * acc + ((of_char c :: nat) - 48)) cs"

definition padLeft :: "nat \<Rightarrow> string \<Rightarrow> string" where
  "padLeft w s = replicate (w - length s) (CHR '' '') @ s"

fun typeAndValue :: "arg \<Rightarrow> string" where
  "typeAndValue (ArgStr s) = ''string='' @ s"
| "typeAndValue (ArgInt i) = ''int='' @ itoa i"

fun printArg :: "char \<Rightarrow> arg \<Rightarrow> string" where
  "printArg verb (ArgStr s) =
     (if verb = CHR ''s'' \<or> verb = CHR ''v'' then s
      else ''%!'' @ [verb] @ ''('' @ typeAndValue (ArgStr s) @ '')'')"
| "printArg verb (ArgInt i) =
     (if verb = CHR ''d'' \<or> verb = CHR ''v'' then itoa i
      else ''%!'' @ [verb] @ ''('' @ typeAndValue (ArgInt i) @ '')'')"

definition extraArgs :: "arg list \<Rightarrow> string" where
  "extraArgs a = (if a = [] then [] else ''%!(EXTRA '' @ Join (map typeAndValue a) '', '' @ '')'')"

function Sprintf :: "string \<Rightarrow> arg list \<Rightarrow> string" where
  "Sprintf [] a = extraArgs a"
| "Sprintf (c # format) a =
     (if c \<noteq> CHR ''%'' then c # Sprintf format a
      else
        (case dropWhile isDigit format of
           [] \<Rightarrow> ''%!(NOVERB)'' @ extraArgs a
         | verb # rest \<Rightarrow>
             if verb = CHR ''%'' then CHR ''%'' # Sprintf rest a
             else
               (case a of
                  [] \<Rightarrow> ''%!'' @ [verb] @ ''(MISSING)'' @ Sprintf rest []
                | x # a' \<Rightarrow>
                    padLeft (decToNat 0 (takeWhile isDigit format)) (printArg verb x)
                      @ Sprintf rest a')))"
  by pat_completeness auto
termination
proof (relation "measure (\<lambda>(format, a). length format)")
  show "wf (measure (\<lambda>(format, a). length format))" by simp
next
  fix c :: char and format :: string and a :: "arg list"
  show "((format, a), (c # format, a)) \<in> measure (\<lambda>(format, a). length format)" by simp
next
  fix c :: char and format x2 :: string and a :: "arg list" and x21 :: char and x22 :: string
  assume "dropWhile isDigit format = x21 # x22"
  then have "length x22 < length (dropWhile isDigit format)" by simp
  also have "\<dots> \<le> length format" by (rule length_dropWhile_le)
  finally show "((x22, a), (c # format, a)) \<in> measure (\<lambda>(format, a). length format)" by simp
next
  fix c :: char and format :: string and a :: "arg list" and x21 :: char and x22 :: string
  assume "dropWhile isDigit format = x21 # x22"
  then have "length x22 < length (dropWhile isDigit format)" by simp
  also have "\<dots> \<le> length format" by (rule length_dropWhile_le)
  finally show "((x22, []), (c # format, a)) \<in> measure (\<lambda>(format, a). length format)" by simp
next
  fix c :: char and format :: string and a a' :: "arg list" and x21 :: char and x22 :: string
    and x :: arg
  assume "dropWhile isDigit format = x21 # x22"
  then have "length x22 < length (dropWhile isDigit format)" by simp
  also have "\<dots> \<le> length format" by (rule length_dropWhile_le)
  finally show "((x22, a'), (c # format, a)) \<in> measure (\<lambda>(format, a). length format)" by simp
qed

declare Sprintf.simps [simp del]


subsection \<open>Paths: the functions of package path/filepath that the file uses\<close>

text \<open>
  The functions depend on the operating system through \<^verbatim>\<open>filepath.Separator\<close>
  (a slash, or a backslash on Windows), which is their first argument here.
\<close>

definition ToSlash :: "char \<Rightarrow> string \<Rightarrow> string" where
  "ToSlash Separator path =
     (if Separator = CHR ''/'' then path
      else map (\<lambda>c. if c = Separator then CHR ''/'' else c) path)"

definition FromSlash :: "char \<Rightarrow> string \<Rightarrow> string" where
  "FromSlash Separator path =
     (if Separator = CHR ''/'' then path
      else map (\<lambda>c. if c = CHR ''/'' then Separator else c) path)"

definition IsPathSeparator :: "char \<Rightarrow> char \<Rightarrow> bool" where
  "IsPathSeparator Separator c = (c = Separator \<or> c = CHR ''/'')"

text \<open>\<^verbatim>\<open>filepath.Split\<close> cuts after the last path separator. Volume names
  (drive prefixes on Windows) are not modelled: the function names it is applied to
  carry none.\<close>

definition Split :: "char \<Rightarrow> string \<Rightarrow> string \<times> string" where
  "Split Separator path =
     (let file = rev (takeWhile (\<lambda>c. \<not> IsPathSeparator Separator c) (rev path))
      in (take (length path - length file) path, file))"

subsection \<open>What the file takes from outside\<close>

text \<open>
  One entry of the call stack as \<^verbatim>\<open>runtime.Caller\<close> reports it:
  \<open>funcName\<close> is \<^verbatim>\<open>runtime.FuncForPC(pc).Name()\<close>, the fully qualified name.
\<close>

record frame =
  fileName :: string
  lineNumber :: int
  funcName :: string

text \<open>
  \<open>callers\<close> is the call stack seen from inside \<^verbatim>\<open>getTrace\<close>: entry \<open>n\<close> is
  what \<^verbatim>\<open>runtime.Caller(n)\<close> returns there, and beyond its length
  \<^verbatim>\<open>ok\<close> is false. \<open>utcNow\<close> is
  \<^verbatim>\<open>UTCNow().Format(time.RFC3339Nano)\<close>. \<open>trimStrings\<close> is the package variable
  that \<^verbatim>\<open>init\<close> fills from GOROOT and GOPATH.
\<close>

record env =
  Separator :: char
  trimStrings :: "string list"
  callers :: "frame list"
  utcNow :: string
  colorRed :: "string \<Rightarrow> string"
  colorBold :: "string \<Rightarrow> string"

definition Caller :: "env \<Rightarrow> nat \<Rightarrow> frame option" where
  "Caller e skip = (if skip < length (callers e) then Some (callers e ! skip) else None)"

subsection \<open>Errors\<close>

text \<open>
  The dynamic type of an error value, as the type switch of \<^verbatim>\<open>isErrIgnored\<close>
  sees it: the seven types it names, and any other type by its name.
\<close>

datatype errorType =
  BucketNotFound | BucketNotEmpty | BucketExists
  | ObjectNotFound | ObjectExistsAsDirectory
  | BucketPolicyNotFound | InvalidUploadID
  | OtherType string

text \<open>
  Modelled from the spec: the wrapper type of package \<^verbatim>\<open>pkg/errors\<close> and the
  \<^verbatim>\<open>Error\<close> methods of the error types are not among the sources. An error is a
  value of some type together with the text its \<^verbatim>\<open>Error\<close> method returns, or a
  wrapping layer around a cause. The specification leaves the string representations to
  the error types and does not fix the text of a wrapping layer, so a layer carries a
  text of its own. A nil error is \<open>None\<close> of \<open>error option\<close>.
\<close>

datatype error = Value errorType string | Wrap string error

fun Error_text :: "error \<Rightarrow> string" where
  "Error_text (Value t s) = s"
| "Error_text (Wrap s cause) = s"

text \<open>
  Modelled from the spec: \<^verbatim>\<open>errors.Cause\<close> of package \<^verbatim>\<open>pkg/errors\<close> is not
  among the sources. The specification describes it as a fixed ``unwrap until no further
  cause'' operation.
\<close>

fun errors_Cause :: "error \<Rightarrow> error" where
  "errors_Cause (Value t s) = Value t s"
| "errors_Cause (Wrap s cause) = errors_Cause cause"

fun dynamicType :: "error \<Rightarrow> errorType option" where
  "dynamicType (Value t s) = Some t"
| "dynamicType (Wrap s cause) = None"

definition isErrIgnored :: "error \<Rightarrow> bool" where
  "isErrIgnored err =
     (let err = errors_Cause err; t = dynamicType err
      in if t \<in> {Some BucketNotFound, Some BucketNotEmpty, Some BucketExists} then True
         else if t \<in> {Some ObjectNotFound, Some ObjectExistsAsDirectory} then True
         else if t \<in> {Some BucketPolicyNotFound, Some InvalidUploadID} then True
         else False)"

subsection \<open>Levels and the logger's flags\<close>

type_synonym Level = "8 word"

definition Error :: Level where
  "Error = 1"

definition Fatal :: Level where
  "Fatal = 2"

definition Level_String :: "Level \<Rightarrow> string" where
  "Level_String level =
     (if level = Error then ''ERROR'' else if level = Fatal then ''FATAL'' else [])"

record logEntry =
  Level :: string
  Message :: string
  Time :: string
  Cause :: string
  Trace :: "string list"

record Logger =
  quiet :: bool
  json :: bool

definition NewLogger :: Logger where
  "NewLogger = \<lparr>quiet = False, json = False\<rparr>"

definition EnableQuiet :: "Logger \<Rightarrow> Logger" where
  "EnableQuiet log = log\<lparr>quiet := True\<rparr>"

definition EnableJSON :: "Logger \<Rightarrow> Logger" where
  "EnableJSON log = (log\<lparr>json := True\<rparr>)\<lparr>quiet := True\<rparr>"

text \<open>
  The state of the process that the file touches: the package variable \<^verbatim>\<open>log\<close>
  and what has been written to standard output, one entry for each write.
\<close>

record process =
  log :: Logger
  stdout :: "string list"



subsection \<open>Trimming paths and building the trace\<close>

fun trimTrace_loop :: "char \<Rightarrow> string \<Rightarrow> string list \<Rightarrow> string" where
  "trimTrace_loop sep f [] = f"
| "trimTrace_loop sep f (trimString # rest) =
     trimTrace_loop sep (TrimPrefix (ToSlash sep f) (ToSlash sep trimString)) rest"

definition trimTrace :: "env \<Rightarrow> string \<Rightarrow> string" where
  "trimTrace e f = FromSlash (Separator e) (trimTrace_loop (Separator e) f (trimStrings e))"

function getTrace_loop :: "env \<Rightarrow> nat \<Rightarrow> string list \<Rightarrow> string list" where
  "getTrace_loop e traceLevel trace =
     (case Caller e traceLevel of
        None \<Rightarrow> trace
      | Some fr \<Rightarrow>
          (let file = trimTrace e (fileName fr);
               name = snd (Split (Separator e) (funcName fr))
           in getTrace_loop e (traceLevel + 1)
                (if \<not> HasPrefix file ''<autogenerated>'' \<and> \<not> HasPrefix name ''runtime.''
                 then trace @ [Sprintf ''%v:%v:%v()''
                                 [ArgStr file, ArgInt (lineNumber fr), ArgStr name]]
                 else trace)))"
  by pat_completeness auto
termination
  by (relation "measure (\<lambda>(e, traceLevel, trace). length (callers e) - traceLevel)")
     (auto simp: Caller_def split: if_splits)

declare getTrace_loop.simps [simp del]

definition getTrace :: "env \<Rightarrow> nat \<Rightarrow> string list" where
  "getTrace e traceLevel = getTrace_loop e traceLevel []"

subsection \<open>Marshalling a log entry\<close>

text \<open>
  \<^verbatim>\<open>json.Marshal\<close> on a \<^verbatim>\<open>logEntry\<close>: the five fields in the order of their
  declaration under the names of their tags, strings quoted and escaped (with the
  escaping of \<^verbatim>\<open><\<close>, \<^verbatim>\<open>>\<close> and \<^verbatim>\<open>&\<close> that Marshal applies), a nil slice as
  \<^verbatim>\<open>null\<close>. The escaping is exact on ASCII text; bytes from 128 on are copied
  (as Marshal does for valid UTF-8 other than U+2028 and U+2029). The result is a sum
  as in Go, although no entry makes Marshal fail.
\<close>

abbreviation DQ :: char where
  "DQ \<equiv> CHR 0x22"

abbreviation BS :: char where
  "BS \<equiv> CHR 0x5C"

definition hex :: string where
  "hex = ''0123456789abcdef''"

definition jsonEscape :: "char \<Rightarrow> string" where
  "jsonEscape c =
     (let b = (of_char c :: nat)
      in if 128 \<le> b then [c]
         else if 32 \<le> b \<and> c \<noteq> DQ \<and> c \<noteq> BS \<and> c \<noteq> CHR ''<'' \<and> c \<noteq> CHR ''>'' \<and> c \<noteq> CHR ''&''
           then [c]
         else if c = BS \<or> c = DQ then [BS, c]
         else if c = CHR 0x0A then [BS, CHR ''n'']
         else if c = CHR 0x0D then [BS, CHR ''r'']
         else if c = CHR 0x09 then [BS, CHR ''t'']
         else [BS, CHR ''u'', CHR ''0'', CHR ''0'', hex ! (b div 16), hex ! (b mod 16)])"

definition jsonString :: "string \<Rightarrow> string" where
  "jsonString s = DQ # concat (map jsonEscape s) @ [DQ]"

definition jsonStrings :: "string list \<Rightarrow> string" where
  "jsonStrings xs = (if xs = [] then ''null'' else ''['' @ Join (map jsonString xs) '','' @ '']'')"

definition encodeEntry :: "logEntry \<Rightarrow> string" where
  "encodeEntry entry =
     ''{'' @ jsonString ''level'' @ '':'' @ jsonString (Level entry)
     @ '','' @ jsonString ''message'' @ '':'' @ jsonString (Message entry)
     @ '','' @ jsonString ''time'' @ '':'' @ jsonString (Time entry)
     @ '','' @ jsonString ''cause'' @ '':'' @ jsonString (Cause entry)
     @ '','' @ jsonString ''trace'' @ '':'' @ jsonStrings (Trace entry)
     @ ''}''"

definition Marshal :: "logEntry \<Rightarrow> string + string" where
  "Marshal entry = Inr (encodeEntry entry)"

subsection \<open>logIf\<close>

text \<open>How a call ends: it returns, it ends the process through \<^verbatim>\<open>os.Exit\<close>, or
  it panics.\<close>

datatype outcome = Returned | Exited int | Panicked string

text \<open>The loop over \<^verbatim>\<open>trace[1:]\<close> of the text rendering, with its index \<open>i\<close>.\<close>

fun numberRest :: "string list \<Rightarrow> nat \<Rightarrow> string list \<Rightarrow> string list" where
  "numberRest [] i trace = trace"
| "numberRest (element # rest) i trace =
     numberRest rest (i + 1)
       (trace[i + 1 := Sprintf ''%8v: %s'' [ArgInt (int i + 2), ArgStr element]])"

definition logIf ::
  "env \<Rightarrow> Level \<Rightarrow> error option \<Rightarrow> string \<Rightarrow> arg list \<Rightarrow> process \<Rightarrow> outcome \<times> process"
where
  "logIf e level err msg data p =
     (case err of
        None \<Rightarrow> (Returned, p)
      | Some er \<Rightarrow>
          if isErrIgnored er then (Returned, p)
          else
            let cause = Title (Error_text er);
                trace = getTrace e 3;
                timeOfError = utcNow e;
                message = Sprintf msg data;
                output =
                  (if json (log p) then
                     (case Marshal \<lparr>Level = Level_String level, Message = message,
                                     Time = timeOfError, Cause = cause, Trace = trace\<rparr> of
                        Inl failure \<Rightarrow> Inl (''json marshal of logEntry failed: '' @ failure)
                      | Inr logJSON \<Rightarrow> Inr logJSON)
                   else if trace = [] then Inl ''runtime error: index out of range''
                   else
                     let trace = trace[0 := ''1: '' @ trace ! 0];
                         trace = numberRest (tl trace) 0 trace;
                         errMsg = Sprintf ''[%s] [%s] %s (%s)''
                                    [ArgStr timeOfError, ArgStr (Level_String level),
                                     ArgStr message, ArgStr cause]
                     in Inr (Sprintf ''\<newline>Trace: %s\<newline>%s''
                               [ArgStr (Join trace ''\<newline>''),
                                ArgStr (colorRed e (colorBold e errMsg))]))
            in (case output of
                  Inl failure \<Rightarrow> (Panicked failure, p)
                | Inr output \<Rightarrow>
                    let p = p\<lparr>stdout := stdout p @ [output @ ''\<newline>'']\<rparr>
                    in if level = Fatal then (Exited 1, p) else (Returned, p)))"

definition errorIf :: "env \<Rightarrow> error option \<Rightarrow> string \<Rightarrow> arg list \<Rightarrow> process \<Rightarrow> outcome \<times> process" where
  "errorIf e err msg data p = logIf e Error err msg data p"

definition fatalIf :: "env \<Rightarrow> error option \<Rightarrow> string \<Rightarrow> arg list \<Rightarrow> process \<Rightarrow> outcome \<times> process" where
  "fatalIf e err msg data p = logIf e Fatal err msg data p"

subsection \<open>Sequences of configuration calls\<close>

datatype configCall = CallEnableQuiet | CallEnableJSON

fun applyCall :: "Logger \<Rightarrow> configCall \<Rightarrow> Logger" where
  "applyCall l CallEnableQuiet = EnableQuiet l"
| "applyCall l CallEnableJSON = EnableJSON l"

definition applyCalls :: "configCall list \<Rightarrow> Logger \<Rightarrow> Logger" where
  "applyCalls cs l = foldl applyCall l cs"

subsection \<open>The specification's wording, for comparison with the code\<close>

text \<open>
  The path normalizer as the specification words it: the first prefix of the list that
  matches is stripped and no other; a path that no prefix matches passes through
  unchanged.
\<close>

fun stripFirstMatch :: "char \<Rightarrow> string \<Rightarrow> string list \<Rightarrow> string option" where
  "stripFirstMatch sep f [] = None"
| "stripFirstMatch sep f (p # ps) =
     (if HasPrefix (ToSlash sep f) (ToSlash sep p)
      then Some (drop (length (ToSlash sep p)) (ToSlash sep f))
      else stripFirstMatch sep f ps)"

definition trimTrace_spec :: "env \<Rightarrow> string \<Rightarrow> string" where
  "trimTrace_spec e f =
     (case stripFirstMatch (Separator e) f (trimStrings e) of
        None \<Rightarrow> f
      | Some rest \<Rightarrow> FromSlash (Separator e) rest)"


text \<open>
  The text rendering as the specification words it: the header line, and the prefix of
  the \<open>n\<close>-th trace entry (\<open>1: \<close> for the first, the index right-aligned in eight
  columns followed by a colon and a space for the others).
\<close>

definition headerLine :: "string \<Rightarrow> string \<Rightarrow> string \<Rightarrow> string \<Rightarrow> string" where
  "headerLine time level message cause =
     ''['' @ time @ ''] ['' @ level @ ''] '' @ message @ '' ('' @ cause @ '')''"

definition tracePrefix :: "nat \<Rightarrow> string" where
  "tracePrefix n =
     (if n = 1 then ''1: ''
      else replicate (8 - length (natToDec n)) (CHR '' '') @ natToDec n @ '': '')"

definition numberedTrace :: "string list \<Rightarrow> string list" where
  "numberedTrace trace = map (\<lambda>k. tracePrefix (Suc k) @ trace ! k) [0..<length trace]"

definition textBlock :: "env \<Rightarrow> string \<Rightarrow> string \<Rightarrow> string \<Rightarrow> string list \<Rightarrow> string" where
  "textBlock e level message cause trace =
     ''\<newline>Trace: '' @ Join (numberedTrace trace) ''\<newline>'' @ ''\<newline>''
     @ colorRed e (colorBold e (headerLine (utcNow e) level message cause))"

subsection \<open>Reading JSON text\<close>

text \<open>
  A lexer for the JSON texts made of objects, arrays, strings and \<^verbatim>\<open>null\<close>, and
  the grammar of JSON values over its tokens. An escape \<^verbatim>\<open>\u\<close> is decoded when it
  denotes an ASCII character and refused otherwise.
\<close>

datatype token = LBrace | RBrace | LBracket | RBracket | Colon | Comma | TNull | TString string

datatype lexState =
  Plain | Keyword string | InString string | Escape string | Unicode string "nat list"

definition hexValue :: "char \<Rightarrow> nat option" where
  "hexValue c =
     (let n = (of_char c :: nat)
      in if 48 \<le> n \<and> n \<le> 57 then Some (n - 48)
         else if 97 \<le> n \<and> n \<le> 102 then Some (n - 87)
         else if 65 \<le> n \<and> n \<le> 70 then Some (n - 55)
         else None)"

definition codePoint :: "nat list \<Rightarrow> nat" where
  "codePoint ds = foldl (\<lambda>acc d. 16 * acc + d) 0 ds"

fun lexJSON_from :: "lexState \<Rightarrow> string \<Rightarrow> token list option" where
  "lexJSON_from st [] = (if st = Plain then Some [] else None)"
| "lexJSON_from st (c # cs) =
     (case st of
        Plain \<Rightarrow>
          if c = CHR ''{'' then map_option ((#) LBrace) (lexJSON_from Plain cs)
          else if c = CHR ''}'' then map_option ((#) RBrace) (lexJSON_from Plain cs)
          else if c = CHR ''['' then map_option ((#) LBracket) (lexJSON_from Plain cs)
          else if c = CHR '']'' then map_option ((#) RBracket) (lexJSON_from Plain cs)
          else if c = CHR '':'' then map_option ((#) Colon) (lexJSON_from Plain cs)
          else if c = CHR '','' then map_option ((#) Comma) (lexJSON_from Plain cs)
          else if c = DQ then lexJSON_from (InString []) cs
          else if c = CHR ''n'' then lexJSON_from (Keyword ''ull'') cs
          else if c = CHR '' '' \<or> c = CHR 0x09 \<or> c = CHR 0x0A \<or> c = CHR 0x0D
            then lexJSON_from Plain cs
          else None
      | Keyword k \<Rightarrow>
          (case k of
             [] \<Rightarrow> None
           | k1 # ks \<Rightarrow>
               if c \<noteq> k1 then None
               else if ks = [] then map_option ((#) TNull) (lexJSON_from Plain cs)
               else lexJSON_from (Keyword ks) cs)
      | InString acc \<Rightarrow>
          if c = DQ then map_option ((#) (TString acc)) (lexJSON_from Plain cs)
          else if c = BS then lexJSON_from (Escape acc) cs
          else if (of_char c :: nat) < 32 then None
          else lexJSON_from (InString (acc @ [c])) cs
      | Escape acc \<Rightarrow>
          if c = DQ \<or> c = BS \<or> c = CHR ''/'' then lexJSON_from (InString (acc @ [c])) cs
          else if c = CHR ''b'' then lexJSON_from (InString (acc @ [CHR 0x08])) cs
          else if c = CHR ''f'' then lexJSON_from (InString (acc @ [CHR 0x0C])) cs
          else if c = CHR ''n'' then lexJSON_from (InString (acc @ [CHR 0x0A])) cs
          else if c = CHR ''r'' then lexJSON_from (InString (acc @ [CHR 0x0D])) cs
          else if c = CHR ''t'' then lexJSON_from (InString (acc @ [CHR 0x09])) cs
          else if c = CHR ''u'' then lexJSON_from (Unicode acc []) cs
          else None
      | Unicode acc ds \<Rightarrow>
          (case hexValue c of
             None \<Rightarrow> None
           | Some d \<Rightarrow>
               if length ds < 3 then lexJSON_from (Unicode acc (ds @ [d])) cs
               else if codePoint (ds @ [d]) < 128
                 then lexJSON_from (InString (acc @ [char_of (codePoint (ds @ [d]))])) cs
               else None))"

definition lexJSON :: "string \<Rightarrow> token list option" where
  "lexJSON s = lexJSON_from Plain s"

inductive jsonValue :: "token list \<Rightarrow> bool"
  and jsonElements :: "token list \<Rightarrow> bool"
  and jsonMembers :: "token list \<Rightarrow> bool"
where
  value_null: "jsonValue [TNull]"
| value_string: "jsonValue [TString s]"
| value_empty_array: "jsonValue [LBracket, RBracket]"
| value_array: "jsonElements ts \<Longrightarrow> jsonValue (LBracket # ts @ [RBracket])"
| value_empty_object: "jsonValue [LBrace, RBrace]"
| value_object: "jsonMembers ts \<Longrightarrow> jsonValue (LBrace # ts @ [RBrace])"
| elements_one: "jsonValue v \<Longrightarrow> jsonElements v"
| elements_more: "jsonValue v \<Longrightarrow> jsonElements r \<Longrightarrow> jsonElements (v @ Comma # r)"
| members_one: "jsonValue v \<Longrightarrow> jsonMembers (TString k # Colon # v)"
| members_more:
    "jsonValue v \<Longrightarrow> jsonMembers r \<Longrightarrow> jsonMembers (TString k # Colon # v @ Comma # r)"

text \<open>The tokens of a log entry's document.\<close>

fun stringTokens :: "string list \<Rightarrow> token list" where
  "stringTokens [] = []"
| "stringTokens [a] = [TString a]"
| "stringTokens (a # b # rest) = TString a # Comma # stringTokens (b # rest)"

definition traceTokens :: "string list \<Rightarrow> token list" where
  "traceTokens trace = (if trace = [] then [TNull] else LBracket # stringTokens trace @ [RBracket])"

definition entryTokens :: "logEntry \<Rightarrow> token list" where
  "entryTokens entry =
     [LBrace, TString ''level'', Colon, TString (Level entry), Comma,
      TString ''message'', Colon, TString (Message entry), Comma,
      TString ''time'', Colon, TString (Time entry), Comma,
      TString ''cause'', Colon, TString (Cause entry), Comma,
      TString ''trace'', Colon] @ traceTokens (Trace entry) @ [RBrace]"

subsection \<open>Sample inputs\<close>

text \<open>
  A process on a system with slash-separated paths, logging from \<^verbatim>\<open>serverMain\<close>
  through \<^verbatim>\<open>errorIf\<close>; and the same process logging from a goroutine started as
  \<^verbatim>\<open>go errorIf(err, msg)\<close>, where only the runtime lies above \<^verbatim>\<open>errorIf\<close>.
\<close>

definition loggerFrames :: "frame list" where
  "loggerFrames =
     [\<lparr>fileName = ''/home/u/go/src/github.com/minio/minio/cmd/logger.go'', lineNumber = 134,
        funcName = ''github.com/minio/minio/cmd.getTrace''\<rparr>,
      \<lparr>fileName = ''/home/u/go/src/github.com/minio/minio/cmd/logger.go'', lineNumber = 177,
        funcName = ''github.com/minio/minio/cmd.logIf''\<rparr>,
      \<lparr>fileName = ''/home/u/go/src/github.com/minio/minio/cmd/logger.go'', lineNumber = 217,
        funcName = ''github.com/minio/minio/cmd.errorIf''\<rparr>]"

definition env_unix :: env where
  "env_unix =
     \<lparr>Separator = CHR ''/'',
      trimStrings = [''/usr/local/go/src/'', ''/home/u/go/src/'', ''github.com/minio/minio/''],
      callers = loggerFrames @
        [\<lparr>fileName = ''/home/u/go/src/github.com/minio/minio/cmd/server-main.go'',
           lineNumber = 20, funcName = ''github.com/minio/minio/cmd.serverMain''\<rparr>,
         \<lparr>fileName = ''/home/u/go/src/github.com/minio/minio/main.go'',
           lineNumber = 30, funcName = ''main.main''\<rparr>,
         \<lparr>fileName = ''/usr/local/go/src/runtime/proc.go'', lineNumber = 185,
           funcName = ''runtime.main''\<rparr>],
      utcNow = ''2017-01-01T00:00:00Z'',
      colorRed = (\<lambda>s. s), colorBold = (\<lambda>s. s)\<rparr>"

definition env_goroutine :: env where
  "env_goroutine =
     env_unix\<lparr>callers := loggerFrames @
        [\<lparr>fileName = ''/usr/local/go/src/runtime/asm_amd64.s'', lineNumber = 2337,
           funcName = ''runtime.goexit''\<rparr>]\<rparr>"

definition diskError :: error where
  "diskError = Value (OtherType ''*errors.errorString'') ''disk not found''"

definition textProcess :: process where
  "textProcess = \<lparr>log = NewLogger, stdout = []\<rparr>"

definition jsonProcess :: process where
  "jsonProcess = \<lparr>log = EnableJSON NewLogger, stdout = []\<rparr>"

section \<open>Properties\<close>

subsection \<open>The logger's flags\<close>

lemma applyCall_keeps: "(json l \<longrightarrow> json (applyCall l c)) \<and> (quiet l \<longrightarrow> quiet (applyCall l c))"
  by (cases c) (simp_all add: EnableQuiet_def EnableJSON_def)

lemma applyCall_inv: "(json l \<longrightarrow> quiet l) \<Longrightarrow> json (applyCall l c) \<longrightarrow> quiet (applyCall l c)"
  by (cases c) (simp_all add: EnableQuiet_def EnableJSON_def)

lemma foldl_keeps: "(json l \<longrightarrow> json (foldl applyCall l cs)) \<and> (quiet l \<longrightarrow> quiet (foldl applyCall l cs))"
proof (induction cs arbitrary: l)
  case Nil
  show ?case by simp
next
  case (Cons c cs)
  show ?case using Cons [of "applyCall l c"] applyCall_keeps [of l c] by simp
qed

lemma foldl_inv: "(json l \<longrightarrow> quiet l) \<Longrightarrow> json (foldl applyCall l cs) \<longrightarrow> quiet (foldl applyCall l cs)"
proof (induction cs arbitrary: l)
  case Nil
  then show ?case by simp
next
  case (Cons c cs)
  show ?case using Cons.IH [of "applyCall l c"] applyCall_inv [OF Cons.prems, of c] by simp
qed

text \<open>
  Claim C6. In every state of the flags reachable from the initial one by calls of
  \<^verbatim>\<open>EnableQuiet\<close> and \<^verbatim>\<open>EnableJSON\<close>, \<open>json\<close> implies \<open>quiet\<close>;
  \<^verbatim>\<open>EnableJSON\<close> sets both flags; both calls are idempotent; and no sequence of calls
  resets a flag that is set.
\<close>

theorem logger_flags_invariant:
  "(json (applyCalls cs NewLogger) \<longrightarrow> quiet (applyCalls cs NewLogger))
   \<and> json (EnableJSON l) \<and> quiet (EnableJSON l) \<and> quiet (EnableQuiet l)
   \<and> json (EnableQuiet l) = json l
   \<and> EnableJSON (EnableJSON l) = EnableJSON l
   \<and> EnableQuiet (EnableQuiet l) = EnableQuiet l
   \<and> (json l \<longrightarrow> json (applyCalls cs l))
   \<and> (quiet l \<longrightarrow> quiet (applyCalls cs l))"
proof -
  have "json NewLogger \<longrightarrow> quiet NewLogger" by (simp add: NewLogger_def)
  then have "json (applyCalls cs NewLogger) \<longrightarrow> quiet (applyCalls cs NewLogger)"
    unfolding applyCalls_def by (rule foldl_inv)
  moreover have "json (EnableJSON l) \<and> quiet (EnableJSON l) \<and> quiet (EnableQuiet l)
      \<and> json (EnableQuiet l) = json l
      \<and> EnableJSON (EnableJSON l) = EnableJSON l \<and> EnableQuiet (EnableQuiet l) = EnableQuiet l"
    by (simp add: EnableJSON_def EnableQuiet_def)
  moreover have "(json l \<longrightarrow> json (applyCalls cs l)) \<and> (quiet l \<longrightarrow> quiet (applyCalls cs l))"
    unfolding applyCalls_def by (rule foldl_keeps)
  ultimately show ?thesis by blast
qed

theorem logger_flags_invariant_witness:
  "json (applyCalls [CallEnableQuiet, CallEnableJSON, CallEnableQuiet] NewLogger)
   \<and> quiet (applyCalls [CallEnableQuiet, CallEnableJSON, CallEnableQuiet] NewLogger)
   \<and> json (EnableJSON NewLogger) \<and> quiet (EnableJSON NewLogger)
   \<and> json (applyCalls [CallEnableQuiet, CallEnableJSON, CallEnableQuiet] (EnableJSON NewLogger))
   \<and> quiet (applyCalls [CallEnableQuiet, CallEnableJSON, CallEnableQuiet] (EnableJSON NewLogger))"
  using logger_flags_invariant [of "[CallEnableQuiet, CallEnableJSON, CallEnableQuiet]" "EnableJSON NewLogger"]
  by (simp add: applyCalls_def EnableJSON_def EnableQuiet_def NewLogger_def)

subsection \<open>Trimming paths\<close>

lemma length_ToSlash [simp]: "length (ToSlash sep p) = length p"
  by (simp add: ToSlash_def)

lemma ToSlash_idem [simp]: "ToSlash sep (ToSlash sep f) = ToSlash sep f"
  by (simp add: ToSlash_def)

lemma FromSlash_ToSlash [simp]: "FromSlash sep (ToSlash sep f) = FromSlash sep f"
  by (simp add: ToSlash_def FromSlash_def)

lemma FromSlash_idem [simp]: "FromSlash sep (FromSlash sep f) = FromSlash sep f"
  by (simp add: FromSlash_def)

lemma trimTrace_loop_no_match:
  "\<forall>t \<in> set ts. \<not> HasPrefix (ToSlash sep f) (ToSlash sep t) \<Longrightarrow>
   FromSlash sep (trimTrace_loop sep f ts) = FromSlash sep f"
proof (induction ts arbitrary: f)
  case Nil
  show ?case by simp
next
  case (Cons t ts)
  have "\<forall>t \<in> set ts. \<not> HasPrefix (ToSlash sep (ToSlash sep f)) (ToSlash sep t)"
    using Cons.prems by simp
  from Cons.IH [OF this] show ?case using Cons.prems by (simp add: TrimPrefix_def)
qed

lemma trimTrace_loop_first_match:
  assumes "i < length ts"
    and "HasPrefix (ToSlash sep f) (ToSlash sep (ts ! i))"
    and "\<forall>j < i. \<not> HasPrefix (ToSlash sep f) (ToSlash sep (ts ! j))"
  shows "FromSlash sep (trimTrace_loop sep f ts) =
         FromSlash sep (trimTrace_loop sep (drop (length (ts ! i)) (ToSlash sep f)) (drop (Suc i) ts))"
  using assms
proof (induction ts arbitrary: f i)
  case Nil
  then show ?case by simp
next
  case (Cons t ts)
  show ?case
  proof (cases i)
    case 0
    with Cons.prems show ?thesis by (simp add: TrimPrefix_def)
  next
    case (Suc k)
    have nm: "\<not> HasPrefix (ToSlash sep f) (ToSlash sep t)"
      using Cons.prems(3) Suc by auto
    have a: "k < length ts" using Cons.prems(1) Suc by simp
    have b: "HasPrefix (ToSlash sep (ToSlash sep f)) (ToSlash sep (ts ! k))"
      using Cons.prems(2) Suc by simp
    have c: "\<forall>j < k. \<not> HasPrefix (ToSlash sep (ToSlash sep f)) (ToSlash sep (ts ! j))"
      using Cons.prems(3) Suc by auto
    from Cons.IH [OF a b c] show ?thesis using nm Suc by (simp add: TrimPrefix_def)
  qed
qed

text \<open>
  Claim C3, as stated, fails: the loop of \<^verbatim>\<open>trimTrace\<close> goes on after a prefix has
  matched, so a path under GOPATH loses both \<^verbatim>\<open>/home/u/go/src/\<close> and
  \<^verbatim>\<open>github.com/minio/minio/\<close>, where stripping the first matching prefix alone
  leaves the second in place.
\<close>

theorem trimTrace_first_match_counterexample:
  "trimTrace env_unix ''/home/u/go/src/github.com/minio/minio/cmd/logger.go'' = ''cmd/logger.go''
   \<and> trimTrace_spec env_unix ''/home/u/go/src/github.com/minio/minio/cmd/logger.go''
       = ''github.com/minio/minio/cmd/logger.go''"
  by (simp add: trimTrace_def trimTrace_spec_def env_unix_def TrimPrefix_def HasPrefix_def ToSlash_def FromSlash_def)

text \<open>
  Claim C3, amended. \<^verbatim>\<open>trimTrace\<close> tries every configured prefix in the order of
  the list on what is left of the path, both sides compared with slashes: if no prefix
  matches, the path comes back with its slashes turned into the native separator
  (unchanged where that is the slash); otherwise the first matching prefix is stripped
  and the prefixes after it are tried on the remainder in the same way, so that one
  call can strip more than one prefix.
\<close>

theorem trimTrace_sequential:
  "((\<forall>t \<in> set (trimStrings e). \<not> HasPrefix (ToSlash (Separator e) f) (ToSlash (Separator e) t))
      \<longrightarrow> trimTrace e f = FromSlash (Separator e) f
          \<and> (Separator e = CHR ''/'' \<longrightarrow> trimTrace e f = f))
   \<and> (i < length (trimStrings e)
        \<and> HasPrefix (ToSlash (Separator e) f) (ToSlash (Separator e) (trimStrings e ! i))
        \<and> (\<forall>j < i. \<not> HasPrefix (ToSlash (Separator e) f) (ToSlash (Separator e) (trimStrings e ! j)))
      \<longrightarrow> trimTrace e f =
            trimTrace (e\<lparr>trimStrings := drop (Suc i) (trimStrings e)\<rparr>)
              (drop (length (trimStrings e ! i)) (ToSlash (Separator e) f)))"
proof -
  have one: "(\<forall>t \<in> set (trimStrings e). \<not> HasPrefix (ToSlash (Separator e) f) (ToSlash (Separator e) t))
      \<longrightarrow> trimTrace e f = FromSlash (Separator e) f
          \<and> (Separator e = CHR ''/'' \<longrightarrow> trimTrace e f = f)"
  proof (intro impI conjI)
    assume nm: "\<forall>t \<in> set (trimStrings e). \<not> HasPrefix (ToSlash (Separator e) f) (ToSlash (Separator e) t)"
    then show r: "trimTrace e f = FromSlash (Separator e) f"
      by (simp add: trimTrace_def trimTrace_loop_no_match)
    assume "Separator e = CHR ''/''"
    with r show "trimTrace e f = f" by (simp add: FromSlash_def)
  qed
  have two: "i < length (trimStrings e)
        \<and> HasPrefix (ToSlash (Separator e) f) (ToSlash (Separator e) (trimStrings e ! i))
        \<and> (\<forall>j < i. \<not> HasPrefix (ToSlash (Separator e) f) (ToSlash (Separator e) (trimStrings e ! j)))
      \<longrightarrow> trimTrace e f =
            trimTrace (e\<lparr>trimStrings := drop (Suc i) (trimStrings e)\<rparr>)
              (drop (length (trimStrings e ! i)) (ToSlash (Separator e) f))"
    by (simp add: trimTrace_def trimTrace_loop_first_match)
  from one two show ?thesis by blast
qed

theorem trimTrace_sequential_witness:
  "trimTrace env_unix ''/home/u/go/src/github.com/minio/minio/cmd/logger.go''
     = trimTrace (env_unix\<lparr>trimStrings := [''github.com/minio/minio/'']\<rparr>) ''github.com/minio/minio/cmd/logger.go''
   \<and> trimTrace env_unix ''cmd/logger.go'' = ''cmd/logger.go''"
proof -
  have a: "trimTrace env_unix ''/home/u/go/src/github.com/minio/minio/cmd/logger.go''
     = trimTrace (env_unix\<lparr>trimStrings := [''github.com/minio/minio/'']\<rparr>) ''github.com/minio/minio/cmd/logger.go''"
    using trimTrace_sequential [of env_unix "''/home/u/go/src/github.com/minio/minio/cmd/logger.go''" 1]
    by (simp add: env_unix_def HasPrefix_def ToSlash_def)
  have b: "trimTrace env_unix ''cmd/logger.go'' = ''cmd/logger.go''"
    using trimTrace_sequential [of env_unix "''cmd/logger.go''" 0]
    by (simp add: env_unix_def HasPrefix_def ToSlash_def FromSlash_def)
  from a b show ?thesis by simp
qed

text \<open>
  Claim C4, as stated, fails: when a configured prefix occurs twice in a row in a path,
  the first application strips one occurrence and the second application the next.
\<close>

theorem trimTrace_idempotent_counterexample:
  "trimTrace env_unix ''/home/u/go/src/github.com/minio/minio/github.com/minio/minio/cmd/logger.go''
     = ''github.com/minio/minio/cmd/logger.go''
   \<and> trimTrace env_unix (trimTrace env_unix ''/home/u/go/src/github.com/minio/minio/github.com/minio/minio/cmd/logger.go'')
     = ''cmd/logger.go''"
  by (simp add: trimTrace_def env_unix_def TrimPrefix_def HasPrefix_def ToSlash_def FromSlash_def)

text \<open>
  Claim C4, amended. Path normalization is idempotent on every path whose normalized
  form begins with none of the configured prefixes: then a second application returns
  the result of the first unchanged.
\<close>

theorem trimTrace_idempotent_when_trimmed:
  "\<forall>t \<in> set (trimStrings e).
      \<not> HasPrefix (ToSlash (Separator e) (trimTrace e f)) (ToSlash (Separator e) t) \<Longrightarrow>
   trimTrace e (trimTrace e f) = trimTrace e f"
proof -
  assume "\<forall>t \<in> set (trimStrings e).
      \<not> HasPrefix (ToSlash (Separator e) (trimTrace e f)) (ToSlash (Separator e) t)"
  then have "trimTrace e (trimTrace e f) = FromSlash (Separator e) (trimTrace e f)"
    by (simp add: trimTrace_def [of e "trimTrace e f"] trimTrace_loop_no_match)
  then show ?thesis by (simp add: trimTrace_def)
qed

theorem trimTrace_idempotent_when_trimmed_witness:
  "trimTrace env_unix (trimTrace env_unix ''/home/u/go/src/github.com/minio/minio/cmd/logger.go'')
     = trimTrace env_unix ''/home/u/go/src/github.com/minio/minio/cmd/logger.go''"
proof -
  have t: "trimTrace env_unix ''/home/u/go/src/github.com/minio/minio/cmd/logger.go'' = ''cmd/logger.go''"
    by (simp add: trimTrace_def env_unix_def TrimPrefix_def HasPrefix_def ToSlash_def FromSlash_def)
  have "\<forall>t \<in> set (trimStrings env_unix).
      \<not> HasPrefix (ToSlash (Separator env_unix) (trimTrace env_unix ''/home/u/go/src/github.com/minio/minio/cmd/logger.go''))
           (ToSlash (Separator env_unix) t)"
    unfolding t by (simp add: env_unix_def HasPrefix_def ToSlash_def)
  from trimTrace_idempotent_when_trimmed [OF this] show ?thesis .
qed

subsection \<open>What logIf does, case by case\<close>

lemma Sprintf_frame:
  "Sprintf ''%v:%v:%v()'' [ArgStr f, ArgInt l, ArgStr n] = f @ '':'' @ itoa l @ '':'' @ n @ ''()''"
  by (simp add: Sprintf.simps isDigit_def padLeft_def extraArgs_def)

lemma Sprintf_numbered:
  "Sprintf ''%8v: %s'' [ArgInt n, ArgStr el] = padLeft 8 (itoa n) @ '': '' @ el"
  by (simp add: Sprintf.simps isDigit_def padLeft_def extraArgs_def)

lemma Sprintf_errMsg:
  "Sprintf ''[%s] [%s] %s (%s)'' [ArgStr t, ArgStr l, ArgStr m, ArgStr c] = headerLine t l m c"
  by (simp add: Sprintf.simps isDigit_def padLeft_def extraArgs_def headerLine_def)

lemma Sprintf_output:
  "Sprintf ''\<newline>Trace: %s\<newline>%s'' [ArgStr t, ArgStr h]
     = ''\<newline>Trace: '' @ t @ ''\<newline>'' @ h"
  by (simp add: Sprintf.simps isDigit_def padLeft_def extraArgs_def)

lemma itoa_int: "itoa (int n) = natToDec n"
  by (simp add: itoa_def)

lemma numbered_prefix:
  "padLeft 8 (itoa (int i + 2)) @ '': '' @ el = tracePrefix (Suc (Suc i)) @ el"
proof -
  have "int i + 2 = int (Suc (Suc i))" by simp
  then have "itoa (int i + 2) = natToDec (Suc (Suc i))"
    by (simp only: itoa_int)
  then show ?thesis by (simp add: padLeft_def tracePrefix_def)
qed

lemma take_Suc_update:
  "n < length xs \<Longrightarrow> take (Suc n) (xs[n := y]) = take n xs @ [y]"
  by (simp add: take_Suc_conv_app_nth)

lemma numberRest_eq:
  "length tr = Suc i + length els \<Longrightarrow>
   numberRest els i tr =
     take (Suc i) tr @ map (\<lambda>k. tracePrefix (Suc (Suc (i + k))) @ els ! k) [0..<length els]"
proof (induction els arbitrary: i tr)
  case Nil
  then show ?case by simp
next
  case (Cons el els)
  let ?x = "Sprintf ''%8v: %s'' [ArgInt (int i + 2), ArgStr el]"
  have x: "?x = tracePrefix (Suc (Suc i)) @ el"
    by (simp only: Sprintf_numbered numbered_prefix)
  have len: "length (tr[i + 1 := ?x]) = Suc (i + 1) + length els"
    using Cons.prems by simp
  have "i + 1 < length tr" using Cons.prems by simp
  then have tk: "take (Suc (i + 1)) (tr[i + 1 := y]) = take (i + 1) tr @ [y]" for y
    by (rule take_Suc_update)
  have "numberRest (el # els) i tr = numberRest els (i + 1) (tr[i + 1 := ?x])"
    by simp
  also have "\<dots> = take (Suc (i + 1)) (tr[i + 1 := ?x])
       @ map (\<lambda>k. tracePrefix (Suc (Suc (i + 1 + k))) @ els ! k) [0..<length els]"
    by (rule Cons.IH [OF len])
  also have "\<dots> = take (Suc i) tr @ [tracePrefix (Suc (Suc i)) @ el]
       @ map (\<lambda>k. tracePrefix (Suc (Suc (i + 1 + k))) @ els ! k) [0..<length els]"
    unfolding x tk by simp
  also have "[tracePrefix (Suc (Suc i)) @ el]
       @ map (\<lambda>k. tracePrefix (Suc (Suc (i + 1 + k))) @ els ! k) [0..<length els]
     = map (\<lambda>k. tracePrefix (Suc (Suc (i + k))) @ (el # els) ! k) [0..<length (el # els)]"
    by (simp add: upt_rec [of 0 "Suc (length els)"] map_Suc_upt [symmetric] del: upt_Suc)
  finally show ?case .
qed

lemma numbering_eq:
  assumes "trace \<noteq> []"
  shows "numberRest (tl (trace[0 := ''1: '' @ trace ! 0])) 0 (trace[0 := ''1: '' @ trace ! 0])
         = numberedTrace trace"
proof -
  obtain t ts where tr: "trace = t # ts" using assms by (cases trace) auto
  have "numberRest ts 0 ((''1: '' @ t) # ts)
        = take (Suc 0) ((''1: '' @ t) # ts) @ map (\<lambda>k. tracePrefix (Suc (Suc (0 + k))) @ ts ! k) [0..<length ts]"
    by (rule numberRest_eq) simp
  moreover have "numberedTrace (t # ts)
        = (''1: '' @ t) # map (\<lambda>k. tracePrefix (Suc (Suc k)) @ ts ! k) [0..<length ts]"
    by (simp add: numberedTrace_def upt_rec [of 0 "Suc (length ts)"] map_Suc_upt [symmetric] tracePrefix_def del: upt_Suc)
  ultimately show ?thesis by (simp add: tr)
qed

lemma logIf_nil: "logIf e level None msg data p = (Returned, p)"
  by (simp add: logIf_def)

lemma logIf_ignored: "isErrIgnored er \<Longrightarrow> logIf e level (Some er) msg data p = (Returned, p)"
  by (simp add: logIf_def)

lemma logIf_json:
  "\<not> isErrIgnored er \<Longrightarrow> json (log p) \<Longrightarrow>
   logIf e level (Some er) msg data p =
     (if level = Fatal then Exited 1 else Returned,
      p\<lparr>stdout := stdout p @
          [encodeEntry \<lparr>Level = Level_String level, Message = Sprintf msg data,
                         Time = utcNow e, Cause = Title (Error_text er),
                         Trace = getTrace e 3\<rparr> @ [CHR 0x0A]]\<rparr>)"
  by (simp add: logIf_def Marshal_def Let_def)

lemma text_output:
  assumes "trace \<noteq> []"
  shows "Sprintf ''\<newline>Trace: %s\<newline>%s''
        [ArgStr (Join (numberRest (tl (trace[0 := CHR ''1'' # CHR '':'' # CHR '' '' # trace ! 0])) 0
                         (trace[0 := CHR ''1'' # CHR '':'' # CHR '' '' # trace ! 0])) ''\<newline>''),
         ArgStr h]
      = ''\<newline>Trace: '' @ Join (numberedTrace trace) ''\<newline>'' @ ''\<newline>'' @ h"
  using numbering_eq [OF assms] by (simp add: Sprintf_output)

lemma logIf_text:
  "\<not> isErrIgnored er \<Longrightarrow> \<not> json (log p) \<Longrightarrow> getTrace e 3 \<noteq> [] \<Longrightarrow>
   logIf e level (Some er) msg data p =
     (if level = Fatal then Exited 1 else Returned,
      p\<lparr>stdout := stdout p @
          [textBlock e (Level_String level) (Sprintf msg data) (Title (Error_text er))
             (getTrace e 3) @ ''\<newline>'']\<rparr>)"
  by (simp add: logIf_def Let_def Sprintf_errMsg text_output textBlock_def)

lemma logIf_text_empty:
  "\<not> isErrIgnored er \<Longrightarrow> \<not> json (log p) \<Longrightarrow> getTrace e 3 = [] \<Longrightarrow>
   logIf e level (Some er) msg data p = (Panicked ''runtime error: index out of range'', p)"
  by (simp add: logIf_def Let_def )

lemma getTrace_loop_done: "length (callers e) \<le> n \<Longrightarrow> getTrace_loop e n tr = tr"
  by (simp add: getTrace_loop.simps [of e n] Caller_def)

lemma getTrace_loop_step:
  "n < length (callers e) \<Longrightarrow>
   getTrace_loop e n tr =
     getTrace_loop e (Suc n)
       (if \<not> HasPrefix (trimTrace e (fileName (callers e ! n))) ''<autogenerated>''
           \<and> \<not> HasPrefix (snd (Split (Separator e) (funcName (callers e ! n)))) ''runtime.''
        then tr @ [trimTrace e (fileName (callers e ! n)) @ '':''
                    @ itoa (lineNumber (callers e ! n)) @ '':''
                    @ snd (Split (Separator e) (funcName (callers e ! n))) @ ''()'']
        else tr)"
  by (simp add: getTrace_loop.simps [of e n] Caller_def Let_def Sprintf_frame)

lemma getTrace_env_unix: "getTrace env_unix 3 = [''cmd/server-main.go:20:cmd.serverMain()'', ''main.go:30:main.main()'']"
  by (simp add: getTrace_def getTrace_loop_step getTrace_loop_done env_unix_def loggerFrames_def
        trimTrace_def TrimPrefix_def HasPrefix_def ToSlash_def FromSlash_def Split_def
        IsPathSeparator_def itoa_def natToDec.simps)

lemma getTrace_env_goroutine: "getTrace env_goroutine 3 = []"
  by (simp add: getTrace_def getTrace_loop_step getTrace_loop_done env_goroutine_def env_unix_def
        loggerFrames_def
        trimTrace_def TrimPrefix_def HasPrefix_def ToSlash_def FromSlash_def Split_def
        IsPathSeparator_def itoa_def natToDec.simps)

lemma diskError_logged: "\<not> isErrIgnored diskError" "\<not> isErrIgnored (Wrap s diskError)"
  by (simp_all add: isErrIgnored_def diskError_def)

lemma Error_text_diskError: "Error_text diskError = ''disk not found''"
  by (simp add: diskError_def)


lemma numberedTrace_sample:
  "numberedTrace [''cmd/server-main.go:20:cmd.serverMain()'', ''main.go:30:main.main()'']
     = [''1: cmd/server-main.go:20:cmd.serverMain()'', ''       2: main.go:30:main.main()'']"
  by code_simp

lemma Error_neq_Fatal: "Error \<noteq> Fatal"
  by (simp add: Error_def Fatal_def)

lemma Title_disk: "Title ''disk not found'' = ''Disk Not Found''"
  by code_simp



subsection \<open>Suppression, cause and exit\<close>

lemma stdout_grows: "p\<lparr>stdout := stdout p @ [r]\<rparr> \<noteq> p"
proof
  assume "p\<lparr>stdout := stdout p @ [r]\<rparr> = p"
  then have "stdout (p\<lparr>stdout := stdout p @ [r]\<rparr>) = stdout p" by simp
  then show False by simp
qed

lemma isErrIgnored_iff:
  "isErrIgnored er \<longleftrightarrow>
   (\<exists>t s. errors_Cause er = Value t s
      \<and> t \<in> {BucketNotFound, BucketNotEmpty, BucketExists, ObjectNotFound,
              ObjectExistsAsDirectory, BucketPolicyNotFound, InvalidUploadID})"
proof -
  obtain t s where c: "errors_Cause er = Value t s"
    by (induction er) auto
  show ?thesis by (auto simp: isErrIgnored_def c)
qed

lemma logIf_emits:
  assumes "\<not> isErrIgnored er" and "json (log p) \<or> getTrace e 3 \<noteq> []"
  shows "logIf e level (Some er) msg data p =
     (if level = Fatal then Exited 1 else Returned,
      p\<lparr>stdout := stdout p @
          [(if json (log p)
            then encodeEntry \<lparr>Level = Level_String level, Message = Sprintf msg data,
                               Time = utcNow e, Cause = Title (Error_text er),
                               Trace = getTrace e 3\<rparr>
            else textBlock e (Level_String level) (Sprintf msg data) (Title (Error_text er))
                   (getTrace e 3)) @ ''\<newline>'']\<rparr>)"
proof (cases "json (log p)")
  case True
  then show ?thesis using logIf_json [OF assms(1) True] by simp
next
  case False
  with assms(2) have "getTrace e 3 \<noteq> []" by simp
  from logIf_text [OF assms(1) False this] False show ?thesis by simp
qed

lemma logIf_not_silent: "\<not> isErrIgnored er \<Longrightarrow> logIf e level (Some er) msg data p \<noteq> (Returned, p)"
proof (cases "json (log p) \<or> getTrace e 3 \<noteq> []")
  case True
  assume "\<not> isErrIgnored er"
  from logIf_emits [OF this True] show ?thesis by (simp add: stdout_grows)
next
  case False
  assume "\<not> isErrIgnored er"
  with False show ?thesis by (simp add: logIf_text_empty)
qed

text \<open>
  Claim C1, as stated, fails in its last part: in text mode, when no frame of the stack
  survives the filter of \<^verbatim>\<open>getTrace\<close> (a goroutine started as
  \<^verbatim>\<open>go errorIf(err, msg)\<close>), the error is neither nil nor ignorable and yet no
  record is written: the call panics on \<^verbatim>\<open>trace[0]\<close>.
\<close>

theorem logIf_record_counterexample:
  "\<not> isErrIgnored diskError
   \<and> logIf env_goroutine Error (Some diskError) ''lookup failed'' [] textProcess
       = (Panicked ''runtime error: index out of range'', textProcess)"
  by code_simp

text \<open>
  Claim C1, amended. For every level, \<^verbatim>\<open>logIf\<close> returns with the process unchanged
  (nothing written, no exit, no panic) if and only if the error is nil or its root cause
  is a value of one of the seven types of the allow-list; for every other error a record
  is written, provided JSON mode is on or the trace is not empty.
\<close>

theorem logIf_silent_iff:
  "(logIf e level err msg data p = (Returned, p)
      \<longleftrightarrow> err = None
          \<or> (\<exists>er t s. err = Some er \<and> errors_Cause er = Value t s
                \<and> t \<in> {BucketNotFound, BucketNotEmpty, BucketExists, ObjectNotFound,
                        ObjectExistsAsDirectory, BucketPolicyNotFound, InvalidUploadID}))
   \<and> (\<forall>er. err = Some er \<and> \<not> isErrIgnored er \<and> (json (log p) \<or> getTrace e 3 \<noteq> [])
         \<longrightarrow> (\<exists>record. record \<noteq> []
                \<and> snd (logIf e level err msg data p) = p\<lparr>stdout := stdout p @ [record]\<rparr>))"
proof (intro conjI allI impI)
  show "logIf e level err msg data p = (Returned, p)
      \<longleftrightarrow> err = None
          \<or> (\<exists>er t s. err = Some er \<and> errors_Cause er = Value t s
                \<and> t \<in> {BucketNotFound, BucketNotEmpty, BucketExists, ObjectNotFound,
                        ObjectExistsAsDirectory, BucketPolicyNotFound, InvalidUploadID})"
  proof (cases err)
    case None
    then show ?thesis by (simp add: logIf_nil)
  next
    case (Some er)
    show ?thesis
    proof (cases "isErrIgnored er")
      case True
      then show ?thesis using Some isErrIgnored_iff [of er] by (simp add: logIf_ignored)
    next
      case False
      then show ?thesis using Some isErrIgnored_iff [of er] logIf_not_silent [OF False] by simp
    qed
  qed
next
  fix er
  assume a: "err = Some er \<and> \<not> isErrIgnored er \<and> (json (log p) \<or> getTrace e 3 \<noteq> [])"
  then have "\<not> isErrIgnored er" and "json (log p) \<or> getTrace e 3 \<noteq> []" by simp_all
  from logIf_emits [OF this, of level msg data] a
  obtain body where "snd (logIf e level err msg data p) = p\<lparr>stdout := stdout p @ [body @ ''\<newline>'']\<rparr>"
    by simp
  then have "body @ ''\<newline>'' \<noteq> []
      \<and> snd (logIf e level err msg data p) = p\<lparr>stdout := stdout p @ [body @ ''\<newline>'']\<rparr>"
    by simp
  then show "\<exists>record. record \<noteq> []
          \<and> snd (logIf e level err msg data p) = p\<lparr>stdout := stdout p @ [record]\<rparr>"
    by (rule exI)
qed

theorem logIf_silent_iff_witness:
  "logIf env_unix Error (Some (Wrap ''lookup'' (Value BucketNotFound ''bucket not found''))) ''lookup failed'' [] textProcess
     = (Returned, textProcess)
   \<and> (\<exists>record. record \<noteq> []
        \<and> snd (logIf env_unix Error (Some diskError) ''lookup failed'' [] textProcess)
            = textProcess\<lparr>stdout := stdout textProcess @ [record]\<rparr>)"
proof -
  have a: "logIf env_unix Error (Some (Wrap ''lookup'' (Value BucketNotFound ''bucket not found''))) ''lookup failed'' [] textProcess
     = (Returned, textProcess)"
    using logIf_silent_iff [of env_unix Error "Some (Wrap ''lookup'' (Value BucketNotFound ''bucket not found''))" "''lookup failed''" "[]" textProcess]
    by simp
  have b: "\<exists>record. record \<noteq> []
        \<and> snd (logIf env_unix Error (Some diskError) ''lookup failed'' [] textProcess)
            = textProcess\<lparr>stdout := stdout textProcess @ [record]\<rparr>"
    using logIf_silent_iff [of env_unix Error "Some diskError" "''lookup failed''" "[]" textProcess]
    by (simp add: diskError_logged getTrace_env_unix)
  from a b show ?thesis by simp
qed

lemma logIf_exit: "fst (logIf e level err msg data p) = Exited code \<Longrightarrow> level = Fatal \<and> code = 1"
proof (cases err)
  case None
  assume "fst (logIf e level err msg data p) = Exited code"
  with None show ?thesis by (simp add: logIf_nil)
next
  case (Some er)
  assume x: "fst (logIf e level err msg data p) = Exited code"
  show ?thesis
  proof (cases "isErrIgnored er")
    case True
    with x Some show ?thesis by (simp add: logIf_ignored)
  next
    case False
    show ?thesis
    proof (cases "json (log p) \<or> getTrace e 3 \<noteq> []")
      case True
      from logIf_emits [OF False True, of level msg data] x Some show ?thesis
        by (simp split: if_splits)
    next
      case f: False
      with x Some False show ?thesis by (simp add: logIf_text_empty)
    qed
  qed
qed




text \<open>
  Claim C5, as stated, fails: in text mode with an empty trace, \<^verbatim>\<open>logIf\<close> at level
  Fatal panics on \<^verbatim>\<open>trace[0]\<close> before it writes, and \<^verbatim>\<open>os.Exit(1)\<close> is not
  reached.
\<close>

theorem logIf_fatal_counterexample:
  "\<not> isErrIgnored diskError
   \<and> logIf env_goroutine Fatal (Some diskError) ''failed: %s'' [ArgStr ''disk full''] textProcess
       = (Panicked ''runtime error: index out of range'', textProcess)"
  by code_simp

text \<open>
  Claim C5, amended. For every error that is neither nil nor ignorable, provided JSON
  mode is on or the trace is not empty, \<^verbatim>\<open>logIf\<close> at level Fatal makes exactly one
  write, of the rendered record (the marshalled entry in JSON mode, the text block
  otherwise) whose message is the format interpolated with the arguments, and then
  exits with status 1; at level Error (at any level other than Fatal) no call exits.
\<close>

theorem logIf_fatal_exits:
  "(\<not> isErrIgnored er \<and> (json (log p) \<or> getTrace e 3 \<noteq> []) \<longrightarrow>
      logIf e Fatal (Some er) msg data p =
        (Exited 1,
         p\<lparr>stdout := stdout p @
           [(if json (log p)
             then encodeEntry \<lparr>Level = ''FATAL'', Message = Sprintf msg data,
                                Time = utcNow e, Cause = Title (Error_text er),
                                Trace = getTrace e 3\<rparr>
             else ''\<newline>Trace: '' @ Join (numberedTrace (getTrace e 3)) ''\<newline>'' @ ''\<newline>''
                  @ colorRed e (colorBold e
                      (''['' @ utcNow e @ ''] [FATAL] '' @ Sprintf msg data
                       @ '' ('' @ Title (Error_text er) @ '')'')))
            @ ''\<newline>'']\<rparr>))
   \<and> fst (logIf e Error err msg data p) \<noteq> Exited code
   \<and> (level \<noteq> Fatal \<longrightarrow> fst (logIf e level err msg data p) \<noteq> Exited code)"
proof (intro conjI impI)
  assume a: "\<not> isErrIgnored er \<and> (json (log p) \<or> getTrace e 3 \<noteq> [])"
  then have "\<not> isErrIgnored er" and "json (log p) \<or> getTrace e 3 \<noteq> []" by simp_all
  from logIf_emits [OF this, of Fatal msg data]
  show "logIf e Fatal (Some er) msg data p =
        (Exited 1,
         p\<lparr>stdout := stdout p @
           [(if json (log p)
             then encodeEntry \<lparr>Level = ''FATAL'', Message = Sprintf msg data,
                                Time = utcNow e, Cause = Title (Error_text er),
                                Trace = getTrace e 3\<rparr>
             else ''\<newline>Trace: '' @ Join (numberedTrace (getTrace e 3)) ''\<newline>'' @ ''\<newline>''
                  @ colorRed e (colorBold e
                      (''['' @ utcNow e @ ''] [FATAL] '' @ Sprintf msg data
                       @ '' ('' @ Title (Error_text er) @ '')'')))
            @ ''\<newline>'']\<rparr>)"
    by (simp add: Level_String_def Error_neq_Fatal [symmetric] textBlock_def headerLine_def)
next
  show "fst (logIf e Error err msg data p) \<noteq> Exited code"
    using logIf_exit [of e Error err msg data p code] Error_neq_Fatal by blast
next
  assume "level \<noteq> Fatal"
  then show "fst (logIf e level err msg data p) \<noteq> Exited code"
    using logIf_exit [of e level err msg data p code] by blast
qed

theorem logIf_fatal_exits_witness:
  "logIf env_unix Fatal (Some diskError) ''failed: %s'' [ArgStr ''disk full''] textProcess =
     (Exited 1,
      textProcess\<lparr>stdout :=
        [''\<newline>Trace: 1: cmd/server-main.go:20:cmd.serverMain()\<newline>       2: main.go:30:main.main()\<newline>[2017-01-01T00:00:00Z] [FATAL] failed: disk full (Disk Not Found)\<newline>'']\<rparr>)
   \<and> fst (logIf env_unix Error (Some diskError) ''failed: %s'' [ArgStr ''disk full''] textProcess) \<noteq> Exited 1"
proof -
  have m: "Sprintf ''failed: %s'' [ArgStr ''disk full''] = ''failed: disk full''" by code_simp
  have j: "\<not> json (log textProcess)" "stdout textProcess = []"
    by (simp_all add: textProcess_def NewLogger_def)
  have u: "utcNow env_unix = ''2017-01-01T00:00:00Z''" "colorRed env_unix = (\<lambda>s. s)" "colorBold env_unix = (\<lambda>s. s)"
    by (simp_all add: env_unix_def)
  show ?thesis
    using logIf_fatal_exits [of diskError textProcess env_unix "''failed: %s''" "[ArgStr ''disk full'']" "Some diskError" 1 Error]
    by (simp add: m j u numberedTrace_sample getTrace_env_unix Title_disk diskError_logged Error_neq_Fatal
          Error_text_diskError)
qed

subsection \<open>Quiet mode, the text block and the trace\<close>




lemma natToDec_length: "0 < k \<Longrightarrow> n < 10 ^ k \<Longrightarrow> length (natToDec n) \<le> k"
proof (induction k arbitrary: n)
  case 0
  then show ?case by simp
next
  case (Suc k)
  show ?case
  proof (cases "n < 10")
    case True
    then show ?thesis by (simp add: natToDec.simps [of n])
  next
    case False
    have "0 < k"
    proof (rule ccontr)
      assume "\<not> 0 < k"
      then have "k = 0" by simp
      with Suc.prems False show False by simp
    qed
    moreover have "n div 10 < 10 ^ k" using Suc.prems by (simp add: less_mult_imp_div_less mult.commute)
    ultimately have "length (natToDec (n div 10)) \<le> k" by (rule Suc.IH)
    with False show ?thesis by (simp add: natToDec.simps [of n])
  qed
qed

lemma numberedTrace_nth:
  "k < length trace \<Longrightarrow> numberedTrace trace ! k = tracePrefix (Suc k) @ trace ! k"
  by (simp add: numberedTrace_def)

text \<open>
  Claim C9. In text mode, for an error that is neither nil nor ignorable and a trace of
  \<open>k \<ge> 1\<close> entries, the block written starts with an empty line and the words
  \<open>Trace: \<close>, followed by the \<open>k\<close> trace lines separated by newlines: the first
  starts with \<open>1: \<close>, and line \<open>n\<close> for \<open>2 \<le> n \<le> k\<close> starts with the decimal
  index \<open>n\<close> right-aligned in eight columns (exactly eight while the index has at most
  eight digits) followed by a colon and a space; the block ends with the header line
  \<open>[time] [LEVEL] message (cause)\<close>, passed through the colour functions.
\<close>

theorem text_block_layout:
  assumes "\<not> isErrIgnored er" and "\<not> json (log p)"
    and "length (getTrace e 3) = k" and "1 \<le> k"
  shows "\<exists>lines. length lines = k
     \<and> stdout (snd (logIf e level (Some er) msg data p)) =
         stdout p @
           [''\<newline>Trace: '' @ Join lines ''\<newline>'' @ ''\<newline>''
            @ colorRed e (colorBold e
                (''['' @ utcNow e @ ''] ['' @ Level_String level @ ''] '' @ Sprintf msg data
                 @ '' ('' @ Title (Error_text er) @ '')''))
            @ ''\<newline>'']
     \<and> lines ! 0 = ''1: '' @ getTrace e 3 ! 0
     \<and> (\<forall>n. 2 \<le> n \<and> n \<le> k \<longrightarrow>
           lines ! (n - 1) =
             (replicate (8 - length (natToDec n)) (CHR '' '') @ natToDec n) @ '': ''
               @ getTrace e 3 ! (n - 1)
           \<and> (n < 10 ^ 8 \<longrightarrow>
                length (replicate (8 - length (natToDec n)) (CHR '' '') @ natToDec n) = 8))"
proof -
  let ?trace = "getTrace e 3"
  let ?lines = "numberedTrace ?trace"
  have ne: "?trace \<noteq> []" using assms(3,4) by auto
  have len: "length ?lines = k" using assms(3) by (simp add: numberedTrace_def)
  have out: "stdout (snd (logIf e level (Some er) msg data p)) =
         stdout p @
           [''\<newline>Trace: '' @ Join ?lines ''\<newline>'' @ ''\<newline>''
            @ colorRed e (colorBold e
                (''['' @ utcNow e @ ''] ['' @ Level_String level @ ''] '' @ Sprintf msg data
                 @ '' ('' @ Title (Error_text er) @ '')''))
            @ ''\<newline>'']"
    by (simp add: logIf_text [OF assms(1,2) ne] textBlock_def headerLine_def)
  have first: "?lines ! 0 = ''1: '' @ ?trace ! 0"
    using assms(3,4) by (simp add: numberedTrace_nth tracePrefix_def)
  have rest: "\<forall>n. 2 \<le> n \<and> n \<le> k \<longrightarrow>
           ?lines ! (n - 1) =
             (replicate (8 - length (natToDec n)) (CHR '' '') @ natToDec n) @ '': ''
               @ ?trace ! (n - 1)
           \<and> (n < 10 ^ 8 \<longrightarrow>
                length (replicate (8 - length (natToDec n)) (CHR '' '') @ natToDec n) = 8)"
  proof (intro allI impI conjI)
    fix n
    assume n: "2 \<le> n \<and> n \<le> k"
    then have "n - 1 < length ?trace" and "Suc (n - 1) = n" and "n \<noteq> 1"
      using assms(3) by auto
    then show "?lines ! (n - 1) =
             (replicate (8 - length (natToDec n)) (CHR '' '') @ natToDec n) @ '': ''
               @ ?trace ! (n - 1)"
      by (simp add: numberedTrace_nth tracePrefix_def)
    assume "n < 10 ^ 8"
    then have "length (natToDec n) \<le> 8" using natToDec_length [of 8 n] by simp
    then show "length (replicate (8 - length (natToDec n)) (CHR '' '') @ natToDec n) = 8"
      by simp
  qed
  from len out first rest show ?thesis by blast
qed

theorem text_block_layout_witness:
  "\<exists>lines. length lines = 2
     \<and> stdout (snd (logIf env_unix Error (Some diskError) ''read failed'' [] textProcess)) =
           [''\<newline>Trace: '' @ Join lines ''\<newline>'' @ ''\<newline>''
            @ ''[2017-01-01T00:00:00Z] [ERROR] read failed (Disk Not Found)'' @ ''\<newline>'']
     \<and> lines ! 0 = ''1: cmd/server-main.go:20:cmd.serverMain()''
     \<and> lines ! 1 = ''       2: main.go:30:main.main()''"
proof -
  have m: "Sprintf ''read failed'' [] = ''read failed''" by code_simp
  have l: "Level_String Error = ''ERROR''" by (simp add: Level_String_def)
  have j: "\<not> json (log textProcess)" "stdout textProcess = []"
    by (simp_all add: textProcess_def NewLogger_def)
  have u: "utcNow env_unix = ''2017-01-01T00:00:00Z''" "colorRed env_unix = (\<lambda>s. s)" "colorBold env_unix = (\<lambda>s. s)"
    by (simp_all add: env_unix_def)
  have d: "replicate (8 - length (natToDec 2)) (CHR '' '') @ natToDec 2 = ''       2''"
    by code_simp
  have k: "length (getTrace env_unix 3) = 2" "1 \<le> (2::nat)"
    by (simp_all add: getTrace_env_unix)
  from text_block_layout [OF diskError_logged(1) j(1) k, of Error "''read failed''" "[]"]
  obtain lines where a: "length lines = 2"
    and b: "stdout (snd (logIf env_unix Error (Some diskError) ''read failed'' [] textProcess)) =
           [''\<newline>Trace: '' @ Join lines ''\<newline>'' @ ''\<newline>''
            @ ''[2017-01-01T00:00:00Z] [ERROR] read failed (Disk Not Found)'' @ ''\<newline>'']"
    and c: "lines ! 0 = ''1: cmd/server-main.go:20:cmd.serverMain()''"
    and r: "\<forall>n. 2 \<le> n \<and> n \<le> 2 \<longrightarrow>
           lines ! (n - 1) =
             (replicate (8 - length (natToDec n)) (CHR '' '') @ natToDec n) @ '': ''
               @ getTrace env_unix 3 ! (n - 1)
           \<and> (n < 10 ^ 8 \<longrightarrow>
                length (replicate (8 - length (natToDec n)) (CHR '' '') @ natToDec n) = 8)"
    by (auto simp: m l j u getTrace_env_unix Title_disk Error_text_diskError)
  from r have "lines ! (2 - 1) = (replicate (8 - length (natToDec 2)) (CHR '' '') @ natToDec 2) @ '': ''
               @ getTrace env_unix 3 ! (2 - 1)"
    by blast
  then have e: "lines ! 1 = ''       2: main.go:30:main.main()''"
    unfolding d by (simp add: getTrace_env_unix)
  from a b c e show ?thesis by blast
qed

text \<open>
  Claim C10, as stated, fails in its first part: in JSON mode the trace is never
  indexed, and a record is written also when the trace is empty.
\<close>

theorem empty_trace_record_counterexample:
  "getTrace env_goroutine 3 = []
   \<and> logIf env_goroutine Error (Some diskError) ''lookup failed'' [] jsonProcess
       = (Returned,
          jsonProcess\<lparr>stdout :=
            [encodeEntry \<lparr>Level = ''ERROR'', Message = ''lookup failed'',
                           Time = ''2017-01-01T00:00:00Z'', Cause = ''Disk Not Found'',
                           Trace = []\<rparr> @ ''\<newline>'']\<rparr>)"
  by code_simp

text \<open>
  Claim C10, amended. In text mode, whenever \<^verbatim>\<open>logIf\<close> writes a record the trace is
  not empty: when the trace has at least one entry, the indexing of its first element is
  in bounds and the record is written; when it is empty, the call panics with an index
  out of range and writes nothing. In JSON mode the trace is not indexed and the record
  is written whatever the trace.
\<close>

theorem text_mode_trace_indexing:
  "\<not> isErrIgnored er \<Longrightarrow>
   (\<not> json (log p) \<longrightarrow>
      (getTrace e 3 \<noteq> [] \<longrightarrow>
         (\<exists>record. logIf e level (Some er) msg data p =
            (if level = Fatal then Exited 1 else Returned, p\<lparr>stdout := stdout p @ [record]\<rparr>)))
      \<and> (getTrace e 3 = [] \<longrightarrow>
           logIf e level (Some er) msg data p = (Panicked ''runtime error: index out of range'', p))
      \<and> ((\<exists>record. snd (logIf e level (Some er) msg data p) = p\<lparr>stdout := stdout p @ [record]\<rparr>)
           \<longrightarrow> getTrace e 3 \<noteq> []))
   \<and> (json (log p) \<longrightarrow>
        (\<exists>record. logIf e level (Some er) msg data p =
            (if level = Fatal then Exited 1 else Returned, p\<lparr>stdout := stdout p @ [record]\<rparr>)))"
proof -
  assume ni: "\<not> isErrIgnored er"
  have one: "\<not> json (log p) \<Longrightarrow> getTrace e 3 \<noteq> [] \<Longrightarrow>
         (\<exists>record. logIf e level (Some er) msg data p =
            (if level = Fatal then Exited 1 else Returned, p\<lparr>stdout := stdout p @ [record]\<rparr>))"
    using logIf_text [OF ni, of p e level msg data] by blast
  have two: "\<not> json (log p) \<Longrightarrow> getTrace e 3 = [] \<Longrightarrow>
           logIf e level (Some er) msg data p = (Panicked ''runtime error: index out of range'', p)"
    by (rule logIf_text_empty [OF ni])
  have three: "\<not> json (log p) \<Longrightarrow>
      (\<exists>record. snd (logIf e level (Some er) msg data p) = p\<lparr>stdout := stdout p @ [record]\<rparr>)
           \<Longrightarrow> getTrace e 3 \<noteq> []"
  proof
    assume nj: "\<not> json (log p)" and em: "getTrace e 3 = []"
      and "\<exists>record. snd (logIf e level (Some er) msg data p) = p\<lparr>stdout := stdout p @ [record]\<rparr>"
    then obtain w where "snd (logIf e level (Some er) msg data p) = p\<lparr>stdout := stdout p @ [w]\<rparr>"
      by blast
    with two [OF nj em] have "p = p\<lparr>stdout := stdout p @ [w]\<rparr>" by simp
    with stdout_grows [of p w] show False by simp
  qed
  have four: "json (log p) \<Longrightarrow>
        (\<exists>record. logIf e level (Some er) msg data p =
            (if level = Fatal then Exited 1 else Returned, p\<lparr>stdout := stdout p @ [record]\<rparr>))"
    using logIf_json [OF ni, of p e level msg data] by blast
  from one two three four show ?thesis by blast
qed

theorem text_mode_trace_indexing_witness:
  "(\<exists>record. logIf env_unix Error (Some diskError) ''lookup failed'' [] textProcess =
       (Returned, textProcess\<lparr>stdout := stdout textProcess @ [record]\<rparr>))
   \<and> logIf env_goroutine Error (Some diskError) ''lookup failed'' [] textProcess
       = (Panicked ''runtime error: index out of range'', textProcess)
   \<and> (\<exists>record. logIf env_goroutine Error (Some diskError) ''lookup failed'' [] jsonProcess =
       (Returned, jsonProcess\<lparr>stdout := stdout jsonProcess @ [record]\<rparr>))"
proof -
  have j: "\<not> json (log textProcess)" "json (log jsonProcess)"
    by (simp_all add: textProcess_def jsonProcess_def NewLogger_def EnableJSON_def)
  have a: "\<exists>record. logIf env_unix Error (Some diskError) ''lookup failed'' [] textProcess =
       (Returned, textProcess\<lparr>stdout := stdout textProcess @ [record]\<rparr>)"
    using text_mode_trace_indexing [OF diskError_logged(1), of textProcess env_unix Error "''lookup failed''" "[]"]
    by (simp add: j getTrace_env_unix Error_neq_Fatal)
  have b: "logIf env_goroutine Error (Some diskError) ''lookup failed'' [] textProcess
       = (Panicked ''runtime error: index out of range'', textProcess)
   \<and> (\<exists>record. logIf env_goroutine Error (Some diskError) ''lookup failed'' [] jsonProcess =
       (Returned, jsonProcess\<lparr>stdout := stdout jsonProcess @ [record]\<rparr>))"
    using text_mode_trace_indexing [OF diskError_logged(1), of textProcess env_goroutine Error "''lookup failed''" "[]"]
      text_mode_trace_indexing [OF diskError_logged(1), of jsonProcess env_goroutine Error "''lookup failed''" "[]"]
    by (simp add: j getTrace_env_goroutine Error_neq_Fatal)
  from a b show ?thesis by simp
qed

subsection \<open>The JSON document\<close>

lemma hexValue_hex: "k < 16 \<Longrightarrow> hexValue (hex ! k) = Some k"
proof -
  have "\<forall>k \<in> set [0..<16]. hexValue (hex ! k) = Some k" by code_simp
  moreover assume "k < 16"
  ultimately show ?thesis by simp
qed

lemma hex_not_newline: "k < 16 \<Longrightarrow> hex ! k \<noteq> CHR 0x0A"
proof -
  have "\<forall>k \<in> set [0..<16]. hex ! k \<noteq> CHR 0x0A" by code_simp
  moreover assume "k < 16"
  ultimately show ?thesis by simp
qed

lemma lex_unicode:
  assumes "b < 128"
  shows "lexJSON_from (InString acc)
           ([BS, CHR ''u'', CHR ''0'', CHR ''0'', hex ! (b div 16), hex ! (b mod 16)] @ rest)
         = lexJSON_from (InString (acc @ [char_of b])) rest"
proof -
  have d: "b div 16 < 16" "b mod 16 < 16" using assms by simp_all
  have z: "hexValue (CHR ''0'') = Some 0" by (simp add: hexValue_def)
  have cp: "codePoint [0, 0, b div 16, b mod 16] = b" by (simp add: codePoint_def)
  show ?thesis
    using assms by (simp add: hexValue_hex [OF d(1)] hexValue_hex [OF d(2)] z cp)
qed

lemma lex_escape:
  "lexJSON_from (InString acc) (jsonEscape c @ rest) = lexJSON_from (InString (acc @ [c])) rest"
proof (cases "128 \<le> (of_char c :: nat)")
  case True
  then have "c \<noteq> DQ" "c \<noteq> BS" by auto
  with True show ?thesis by (simp add: jsonEscape_def)
next
  case False
  then have b: "(of_char c :: nat) < 128" by simp
  show ?thesis
  proof (cases "32 \<le> (of_char c :: nat) \<and> c \<noteq> DQ \<and> c \<noteq> BS \<and> c \<noteq> CHR ''<'' \<and> c \<noteq> CHR ''>'' \<and> c \<noteq> CHR ''&''")
    case True
    with False show ?thesis by (simp add: jsonEscape_def)
  next
    case nraw: False
    show ?thesis
    proof (cases "c = BS \<or> c = DQ \<or> c = CHR 0x0A \<or> c = CHR 0x0D \<or> c = CHR 0x09")
      case True
      then show ?thesis by (auto simp: jsonEscape_def)
    next
      case nshort: False
      have e: "jsonEscape c = [BS, CHR ''u'', CHR ''0'', CHR ''0'',
                 hex ! ((of_char c :: nat) div 16), hex ! ((of_char c :: nat) mod 16)]"
        using False nraw nshort by (simp add: jsonEscape_def Let_def)
      show ?thesis unfolding e using lex_unicode [OF b, of acc rest] by simp
    qed
  qed
qed

lemma lex_string_body:
  "lexJSON_from (InString acc) (concat (map jsonEscape s) @ DQ # rest)
     = map_option ((#) (TString (acc @ s))) (lexJSON_from Plain rest)"
proof (induction s arbitrary: acc)
  case Nil
  show ?case by simp
next
  case (Cons c s)
  have "lexJSON_from (InString acc) (concat (map jsonEscape (c # s)) @ DQ # rest)
        = lexJSON_from (InString acc) (jsonEscape c @ (concat (map jsonEscape s) @ DQ # rest))"
    by simp
  also have "\<dots> = lexJSON_from (InString (acc @ [c])) (concat (map jsonEscape s) @ DQ # rest)"
    by (rule lex_escape)
  also have "\<dots> = map_option ((#) (TString ((acc @ [c]) @ s))) (lexJSON_from Plain rest)"
    by (rule Cons.IH)
  finally show ?case by simp
qed

lemma lex_jsonString:
  "lexJSON_from Plain (jsonString s @ rest) = map_option ((#) (TString s)) (lexJSON_from Plain rest)"
  using lex_string_body [of "[]" s rest] by (simp add: jsonString_def)

lemma lex_joined:
  "xs \<noteq> [] \<Longrightarrow>
   lexJSON_from Plain (Join (map jsonString xs) '','' @ rest)
     = map_option ((@) (stringTokens xs)) (lexJSON_from Plain rest)"
proof (induction xs rule: stringTokens.induct)
  case 1
  then show ?case by simp
next
  case (2 a)
  show ?case by (simp add: lex_jsonString option.map_comp comp_def)
next
  case (3 a b rest')
  have "lexJSON_from Plain (Join (map jsonString (a # b # rest')) '','' @ rest)
        = lexJSON_from Plain (jsonString a @ (CHR '','' # (Join (map jsonString (b # rest')) '','' @ rest)))"
    by simp
  also have "\<dots> = map_option ((#) (TString a))
        (lexJSON_from Plain (CHR '','' # (Join (map jsonString (b # rest')) '','' @ rest)))"
    by (rule lex_jsonString)
  also have "\<dots> = map_option ((#) (TString a))
        (map_option ((#) Comma) (lexJSON_from Plain (Join (map jsonString (b # rest')) '','' @ rest)))"
    by simp
  also have "\<dots> = map_option ((#) (TString a))
        (map_option ((#) Comma) (map_option ((@) (stringTokens (b # rest'))) (lexJSON_from Plain rest)))"
    using "3.IH" by simp
  finally show ?case by (simp add: option.map_comp comp_def)
qed

lemma lex_jsonStrings:
  "lexJSON_from Plain (jsonStrings xs @ rest)
     = map_option ((@) (traceTokens xs)) (lexJSON_from Plain rest)"
proof (cases "xs = []")
  case True
  have "(@) [TNull] = (#) TNull" by (rule ext) simp
  with True show ?thesis
    by (simp add: jsonStrings_def traceTokens_def)
next
  case False
  have "lexJSON_from Plain (jsonStrings xs @ rest)
      = map_option ((#) LBracket) (lexJSON_from Plain (Join (map jsonString xs) '','' @ (CHR '']'' # rest)))"
    using False by (simp add: jsonStrings_def)
  also have "\<dots> = map_option ((#) LBracket)
        (map_option ((@) (stringTokens xs)) (lexJSON_from Plain (CHR '']'' # rest)))"
    by (simp only: lex_joined [OF False])
  finally have "lexJSON_from Plain (jsonStrings xs @ rest)
      = map_option (\<lambda>ts. LBracket # stringTokens xs @ RBracket # ts) (lexJSON_from Plain rest)"
    by (simp add: option.map_comp comp_def)
  moreover have "(@) (LBracket # stringTokens xs @ [RBracket])
      = (\<lambda>ts. LBracket # stringTokens xs @ RBracket # ts)"
    by (rule ext) simp
  ultimately show ?thesis using False by (simp add: traceTokens_def)
qed

lemma lex_entry: "lexJSON (encodeEntry entry) = Some (entryTokens entry)"
proof -
  have t: "lexJSON_from Plain (jsonStrings (Trace entry) @ ''}'')
      = Some (traceTokens (Trace entry) @ [RBrace])"
    by (simp add: lex_jsonStrings)
  show ?thesis
    unfolding lexJSON_def encodeEntry_def entryTokens_def
    by (simp add: lex_jsonString t)
qed

lemma jsonEscape_no_newline: "CHR 0x0A \<notin> set (jsonEscape c)"
proof (cases "128 \<le> (of_char c :: nat)")
  case True
  then have "c \<noteq> CHR 0x0A" by auto
  with True show ?thesis by (simp add: jsonEscape_def)
next
  case False
  then have "(of_char c :: nat) div 16 < 16" "(of_char c :: nat) mod 16 < 16" by simp_all
  then have "hex ! ((of_char c :: nat) div 16) \<noteq> CHR 0x0A" "hex ! ((of_char c :: nat) mod 16) \<noteq> CHR 0x0A"
    by (simp_all add: hex_not_newline)
  then show ?thesis by (auto simp: jsonEscape_def Let_def)
qed

lemma jsonString_no_newline: "CHR 0x0A \<notin> set (jsonString s)"
  by (auto simp: jsonString_def jsonEscape_no_newline)

lemma joined_no_newline: "CHR 0x0A \<notin> set (Join (map jsonString xs) '','')"
  by (induction xs rule: stringTokens.induct) (simp_all add: jsonString_no_newline)

lemma jsonStrings_no_newline: "CHR 0x0A \<notin> set (jsonStrings xs)"
  by (simp add: jsonStrings_def joined_no_newline)

lemma encodeEntry_no_newline: "CHR 0x0A \<notin> set (encodeEntry entry)"
  by (simp add: encodeEntry_def jsonString_no_newline jsonStrings_no_newline)

lemma jsonElements_strings: "xs \<noteq> [] \<Longrightarrow> jsonElements (stringTokens xs)"
proof (induction xs rule: stringTokens.induct)
  case 1
  then show ?case by simp
next
  case (2 a)
  show ?case by (simp add: value_string elements_one)
next
  case (3 a b rest)
  have "jsonElements ([TString a] @ Comma # stringTokens (b # rest))"
    by (rule elements_more) (simp_all add: value_string "3.IH")
  then show ?case by simp
qed

lemma jsonValue_trace: "jsonValue (traceTokens xs)"
  by (simp add: traceTokens_def value_null value_array jsonElements_strings)

lemma jsonValue_entry: "jsonValue (entryTokens entry)"
proof -
  have "jsonMembers (TString ''trace'' # Colon # traceTokens (Trace entry))"
    by (rule members_one) (rule jsonValue_trace)
  then have "jsonMembers (TString ''cause'' # Colon # [TString (Cause entry)] @ Comma
      # TString ''trace'' # Colon # traceTokens (Trace entry))"
    by (rule members_more [OF value_string])
  then have "jsonMembers (TString ''time'' # Colon # [TString (Time entry)] @ Comma
      # TString ''cause'' # Colon # [TString (Cause entry)] @ Comma
      # TString ''trace'' # Colon # traceTokens (Trace entry))"
    by (rule members_more [OF value_string])
  then have "jsonMembers (TString ''message'' # Colon # [TString (Message entry)] @ Comma
      # TString ''time'' # Colon # [TString (Time entry)] @ Comma
      # TString ''cause'' # Colon # [TString (Cause entry)] @ Comma
      # TString ''trace'' # Colon # traceTokens (Trace entry))"
    by (rule members_more [OF value_string])
  then have "jsonMembers (TString ''level'' # Colon # [TString (Level entry)] @ Comma
      # TString ''message'' # Colon # [TString (Message entry)] @ Comma
      # TString ''time'' # Colon # [TString (Time entry)] @ Comma
      # TString ''cause'' # Colon # [TString (Cause entry)] @ Comma
      # TString ''trace'' # Colon # traceTokens (Trace entry))"
    by (rule members_more [OF value_string])
  then have "jsonValue (LBrace # (TString ''level'' # Colon # [TString (Level entry)] @ Comma
      # TString ''message'' # Colon # [TString (Message entry)] @ Comma
      # TString ''time'' # Colon # [TString (Time entry)] @ Comma
      # TString ''cause'' # Colon # [TString (Cause entry)] @ Comma
      # TString ''trace'' # Colon # traceTokens (Trace entry)) @ [RBrace])"
    by (rule value_object)
  then show ?thesis by (simp add: entryTokens_def)
qed

text \<open>
  Claim C8, as stated, fails in its last part: with an empty trace (a nil slice) the
  document carries \<^verbatim>\<open>null\<close> under \<open>trace\<close>, not an array.
\<close>

theorem json_trace_counterexample:
  "stdout (snd (logIf env_goroutine Error (Some diskError) ''x=%d'' [ArgInt 5] jsonProcess))
     = [''{'' @ jsonString ''level'' @ '':'' @ jsonString ''ERROR''
        @ '','' @ jsonString ''message'' @ '':'' @ jsonString ''x=5''
        @ '','' @ jsonString ''time'' @ '':'' @ jsonString ''2017-01-01T00:00:00Z''
        @ '','' @ jsonString ''cause'' @ '':'' @ jsonString ''Disk Not Found''
        @ '','' @ jsonString ''trace'' @ '':null}'' @ ''\<newline>'']
   \<and> lexJSON (''{'' @ jsonString ''level'' @ '':'' @ jsonString ''ERROR''
        @ '','' @ jsonString ''message'' @ '':'' @ jsonString ''x=5''
        @ '','' @ jsonString ''time'' @ '':'' @ jsonString ''2017-01-01T00:00:00Z''
        @ '','' @ jsonString ''cause'' @ '':'' @ jsonString ''Disk Not Found''
        @ '','' @ jsonString ''trace'' @ '':null}'')
     = Some [LBrace, TString ''level'', Colon, TString ''ERROR'', Comma,
             TString ''message'', Colon, TString ''x=5'', Comma,
             TString ''time'', Colon, TString ''2017-01-01T00:00:00Z'', Comma,
             TString ''cause'', Colon, TString ''Disk Not Found'', Comma,
             TString ''trace'', Colon, TNull, RBrace]"
  by code_simp

text \<open>
  Claim C8, amended. For every error that is neither nil nor ignorable, what is written
  in JSON mode is one line (the document has no newline and is followed by one) of valid
  JSON: an object with exactly the five members \<open>level\<close>, \<open>message\<close>, \<open>time\<close>,
  \<open>cause\<close>, \<open>trace\<close> in this order, where \<open>level\<close> is the upper-case name of the
  level (\<open>ERROR\<close> for Error, \<open>FATAL\<close> for Fatal), the next three are strings, and
  \<open>trace\<close> is the array of the trace's strings when the trace is not empty and
  \<^verbatim>\<open>null\<close> when it is.
\<close>

theorem json_record_shape:
  assumes "\<not> isErrIgnored er" and "json (log p)"
  shows "\<exists>doc tokens.
       stdout (snd (logIf e level (Some er) msg data p)) = stdout p @ [doc @ ''\<newline>'']
     \<and> CHR 0x0A \<notin> set doc
     \<and> lexJSON doc = Some tokens
     \<and> jsonValue tokens
     \<and> tokens =
         [LBrace, TString ''level'', Colon, TString (Level_String level), Comma,
          TString ''message'', Colon, TString (Sprintf msg data), Comma,
          TString ''time'', Colon, TString (utcNow e), Comma,
          TString ''cause'', Colon, TString (Title (Error_text er)), Comma,
          TString ''trace'', Colon]
         @ (if getTrace e 3 = [] then [TNull]
            else LBracket # stringTokens (getTrace e 3) @ [RBracket])
         @ [RBrace]
     \<and> Level_String Error = ''ERROR'' \<and> Level_String Fatal = ''FATAL''"
proof -
  let ?entry = "\<lparr>Level = Level_String level, Message = Sprintf msg data,
                  Time = utcNow e, Cause = Title (Error_text er), Trace = getTrace e 3\<rparr>"
  have w: "stdout (snd (logIf e level (Some er) msg data p))
        = stdout p @ [encodeEntry ?entry @ ''\<newline>'']"
    by (simp add: logIf_json [OF assms])
  have n: "CHR 0x0A \<notin> set (encodeEntry ?entry)" by (rule encodeEntry_no_newline)
  have l: "lexJSON (encodeEntry ?entry) = Some (entryTokens ?entry)" by (rule lex_entry)
  have v: "jsonValue (entryTokens ?entry)" by (rule jsonValue_entry)
  have t: "entryTokens ?entry =
         [LBrace, TString ''level'', Colon, TString (Level_String level), Comma,
          TString ''message'', Colon, TString (Sprintf msg data), Comma,
          TString ''time'', Colon, TString (utcNow e), Comma,
          TString ''cause'', Colon, TString (Title (Error_text er)), Comma,
          TString ''trace'', Colon]
         @ (if getTrace e 3 = [] then [TNull]
            else LBracket # stringTokens (getTrace e 3) @ [RBracket])
         @ [RBrace]"
    by (simp add: entryTokens_def traceTokens_def)
  have s: "Level_String Error = ''ERROR'' \<and> Level_String Fatal = ''FATAL''"
    by (simp add: Level_String_def Error_neq_Fatal [symmetric])
  from w n l v t s show ?thesis by blast
qed

theorem json_record_shape_witness:
  "\<exists>doc. stdout (snd (logIf env_unix Error (Some diskError) ''x=%d'' [ArgInt 5] jsonProcess))
           = [doc @ ''\<newline>'']
     \<and> CHR 0x0A \<notin> set doc
     \<and> lexJSON doc =
         Some [LBrace, TString ''level'', Colon, TString ''ERROR'', Comma,
               TString ''message'', Colon, TString ''x=5'', Comma,
               TString ''time'', Colon, TString ''2017-01-01T00:00:00Z'', Comma,
               TString ''cause'', Colon, TString ''Disk Not Found'', Comma,
               TString ''trace'', Colon, LBracket,
               TString ''cmd/server-main.go:20:cmd.serverMain()'', Comma,
               TString ''main.go:30:main.main()'', RBracket, RBrace]"
proof -
  have m: "Sprintf ''x=%d'' [ArgInt 5] = ''x=5''" by code_simp
  have j: "json (log jsonProcess)" "stdout jsonProcess = []"
    by (simp_all add: jsonProcess_def NewLogger_def EnableJSON_def)
  have u: "utcNow env_unix = ''2017-01-01T00:00:00Z''"
    by (simp add: env_unix_def)
  from json_record_shape [OF diskError_logged(1) j(1), of env_unix Error "''x=%d''" "[ArgInt 5]"]
  obtain doc tokens where
    "stdout (snd (logIf env_unix Error (Some diskError) ''x=%d'' [ArgInt 5] jsonProcess))
       = [doc @ ''\<newline>'']"
    and "CHR 0x0A \<notin> set doc"
    and "lexJSON doc = Some tokens"
    and "tokens = [LBrace, TString ''level'', Colon, TString ''ERROR'', Comma,
               TString ''message'', Colon, TString ''x=5'', Comma,
               TString ''time'', Colon, TString ''2017-01-01T00:00:00Z'', Comma,
               TString ''cause'', Colon, TString ''Disk Not Found'', Comma,
               TString ''trace'', Colon, LBracket,
               TString ''cmd/server-main.go:20:cmd.serverMain()'', Comma,
               TString ''main.go:30:main.main()'', RBracket, RBrace]"
    by (auto simp: m j u getTrace_env_unix Title_disk Error_text_diskError)
  then show ?thesis by blast
qed

end
